theory Spec2Isabelle
  imports Main
begin

section \<open>Values\<close>

text \<open>
  JavaScript values as far as the store, the subject and the transaction manager look at
  them. An object lives in a heap and is reached through \<open>Ref\<close>; two references to one
  address are the same object. Numbers are modelled as integers.
\<close>

type_synonym addr = nat

datatype jsval = Undefined | Null | Bool bool | Num int | Str string | Ref addr

type_synonym obj = "string \<rightharpoonup> jsval"

text \<open>The truthiness test of \<^verbatim>\<open>if (v)\<close>, \<^verbatim>\<open>a && b\<close> and \<^verbatim>\<open>a || b\<close>.\<close>

fun truthy :: "jsval \<Rightarrow> bool" where
  "truthy Undefined = False"
| "truthy Null = False"
| "truthy (Bool b) = b"
| "truthy (Num n) = (n \<noteq> 0)"
| "truthy (Str s) = (s \<noteq> [])"
| "truthy (Ref a) = True"

section \<open>The subject (reactive/subject.ts)\<close>

text \<open>
  An observer is an object with the three callbacks \<^verbatim>\<open>next\<close>, \<^verbatim>\<open>error\<close> and
  \<^verbatim>\<open>complete\<close>. The model identifies the object by \<open>oid\<close> (the identity that
  \<^verbatim>\<open>indexOf\<close> compares) and lets a callback do three things: be invoked, which is
  recorded as the event \<open>Delivered\<close>; close subscriptions of the subject it is called
  from, its own or those of others, which \<open>unsubscribes\<close> names by the observers
  they remove; and then possibly throw, as \<open>raises\<close> says. A callback that calls back
  into the subject in another way (\<^verbatim>\<open>subscribe\<close>, \<^verbatim>\<open>next\<close>, \<^verbatim>\<open>error\<close>,
  \<^verbatim>\<open>complete\<close>) is outside the model.
  \<^verbatim>\<open>subscribe\<close> builds the observer object from its arguments (the object itself, or
  the callbacks given as functions with no-ops for the missing ones); the model starts
  from the object.
\<close>

datatype notification = Next jsval | Error jsval | Complete

record Observer =
  oid :: nat
  raises :: "notification \<Rightarrow> bool"
  unsubscribes :: "notification \<Rightarrow> nat list"

datatype event =
    Delivered nat notification
  | ConsoleError nat notification
  | Uncaught string nat

datatype exn =
    TransactionNotFound nat
  | TransactionNotPending nat
  | NoActiveTransaction
  | ObserverThrew nat notification
  | BodyError nat

record SafeFlowSubject =
  observers :: "Observer list"
  isClosed :: bool
  lastValue :: jsval
  hasValue :: bool

definition newSubject :: SafeFlowSubject where
  "newSubject = \<lparr>observers = [], isClosed = False, lastValue = Undefined, hasValue = False\<rparr>"

text \<open>\<^verbatim>\<open>indexOf\<close> followed by \<^verbatim>\<open>splice(index, 1)\<close>: the first occurrence goes.\<close>

fun removeObserver :: "nat \<Rightarrow> Observer list \<Rightarrow> Observer list" where
  "removeObserver i [] = []"
| "removeObserver i (ob # obs) = (if oid ob = i then obs else ob # removeObserver i obs)"

text \<open>
  One call of a callback: what it leaves of the subject's observer array, and what it
  leaves on the trace. Inside \<^verbatim>\<open>try { .. } catch (err) { console.error(..) }\<close> a
  throw is reported on the console.
\<close>

definition invoke :: "Observer \<Rightarrow> notification \<Rightarrow> Observer list \<Rightarrow> Observer list" where
  "invoke ob n obs = foldl (\<lambda>l i. removeObserver i l) obs (unsubscribes ob n)"

definition emit :: "notification \<Rightarrow> Observer \<Rightarrow> event list" where
  "emit n ob =
     (if raises ob n then [Delivered (oid ob) n, ConsoleError (oid ob) n]
      else [Delivered (oid ob) n])"

lemma length_removeObserver: "length (removeObserver i obs) \<le> length obs"
  by (induction obs) auto

lemma length_invoke: "length (invoke ob n obs) \<le> length obs"
proof -
  have "length (foldl (\<lambda>l i. removeObserver i l) xs ks) \<le> length xs"
    for xs :: "Observer list" and ks
  proof (induction ks arbitrary: xs)
    case Nil
    show ?case by simp
  next
    case (Cons i ks)
    show ?case
      using Cons.IH [of "removeObserver i xs"] length_removeObserver [of i xs] by simp
  qed
  then show ?thesis by (simp add: invoke_def)
qed

text \<open>
  The loop \<^verbatim>\<open>for (const observer of this.observers) { try { observer.f(..) } catch
  (err) { console.error(..) } }\<close> shared by \<^verbatim>\<open>next\<close>, \<^verbatim>\<open>error\<close> and
  \<^verbatim>\<open>complete\<close>. It walks the array itself, not a copy: the iterator keeps an index
  and reads the array as the callbacks have left it, so an unsubscribe during the loop
  moves the later observers one place down and the loop passes over one of them. A
  callback that throws does not stop the loop. The result is the array after the loop
  and the events of the loop.
\<close>

function deliver :: "notification \<Rightarrow> nat \<Rightarrow> Observer list \<Rightarrow> Observer list \<times> event list" where
  "deliver n i obs =
     (if i < length obs
      then (let ob = obs ! i;
                (obs1, evs) = deliver n (Suc i) (invoke ob n obs)
            in (obs1, emit n ob @ evs))
      else (obs, []))"
  by pat_completeness auto
termination
proof (relation "measure (\<lambda>(n, i, obs). length obs - i)")
  show "wf (measure (\<lambda>(n, i, obs). length obs - i))" by simp
next
  fix n :: notification and i :: nat and obs :: "Observer list" and x :: Observer
  assume "i < length obs"
  then show "((n, Suc i, invoke x n obs), n, i, obs) \<in> measure (\<lambda>(n, i, obs). length obs - i)"
    using length_invoke [of x n obs] by simp
qed

declare deliver.simps [simp del]

definition Subject_next :: "jsval \<Rightarrow> SafeFlowSubject \<Rightarrow> SafeFlowSubject \<times> event list" where
  "Subject_next v s =
     (if isClosed s then (s, [])
      else (let (obs, evs) = deliver (Next v) 0 (observers s)
            in (s\<lparr>lastValue := v, hasValue := True, observers := obs\<rparr>, evs)))"

definition Subject_error :: "jsval \<Rightarrow> SafeFlowSubject \<Rightarrow> SafeFlowSubject \<times> event list" where
  "Subject_error err s =
     (if isClosed s then (s, [])
      else (s\<lparr>isClosed := True, observers := []\<rparr>, snd (deliver (Error err) 0 (observers s))))"

definition Subject_complete :: "SafeFlowSubject \<Rightarrow> SafeFlowSubject \<times> event list" where
  "Subject_complete s =
     (if isClosed s then (s, [])
      else (s\<lparr>isClosed := True, observers := []\<rparr>, snd (deliver Complete 0 (observers s))))"

text \<open>
  A subscription remembers the observer its closure removes and whether it has been
  used. \<^verbatim>\<open>subscribe\<close> pushes the observer first, replays the last value when there is
  one that is not \<^verbatim>\<open>undefined\<close>, and calls \<^verbatim>\<open>complete\<close> when the subject is
  closed. Neither call is inside a \<^verbatim>\<open>try\<close>: a callback that throws leaves
  \<^verbatim>\<open>subscribe\<close> with the exception, the observer already in the list.
\<close>

record Subscription =
  subscriber :: nat
  closed :: bool

definition Subject_subscribe ::
  "Observer \<Rightarrow> SafeFlowSubject \<Rightarrow> (exn + Subscription) \<times> SafeFlowSubject \<times> event list" where
  "Subject_subscribe ob s =
     (let replay = hasValue s \<and> lastValue s \<noteq> Undefined;
          obs1 = observers s @ [ob];
          obs2 = (if replay then invoke ob (Next (lastValue s)) obs1 else obs1);
          ev1 = (if replay then [Delivered (oid ob) (Next (lastValue s))] else [])
      in if replay \<and> raises ob (Next (lastValue s))
         then (Inl (ObserverThrew (oid ob) (Next (lastValue s))), s\<lparr>observers := obs2\<rparr>, ev1)
         else if isClosed s
         then (if raises ob Complete
               then (Inl (ObserverThrew (oid ob) Complete),
                     s\<lparr>observers := invoke ob Complete obs2\<rparr>,
                     ev1 @ [Delivered (oid ob) Complete])
               else (Inr \<lparr>subscriber = oid ob, closed = False\<rparr>,
                     s\<lparr>observers := invoke ob Complete obs2\<rparr>,
                     ev1 @ [Delivered (oid ob) Complete]))
         else (Inr \<lparr>subscriber = oid ob, closed = False\<rparr>, s\<lparr>observers := obs2\<rparr>, ev1))"

definition unsubscribe :: "Subscription \<Rightarrow> SafeFlowSubject \<Rightarrow> Subscription \<times> SafeFlowSubject" where
  "unsubscribe sub s =
     (if closed sub then (sub, s)
      else (sub\<lparr>closed := True\<rparr>, s\<lparr>observers := removeObserver (subscriber sub) (observers s)\<rparr>))"

definition getValue :: "SafeFlowSubject \<Rightarrow> jsval" where
  "getValue s = lastValue s"

definition getObserverCount :: "SafeFlowSubject \<Rightarrow> nat" where
  "getObserverCount s = length (observers s)"

text \<open>
  A history of calls on one subject, to speak about every later point. The events of
  the calls are collected in order.
\<close>

datatype subject_call =
    CallNext jsval
  | CallError jsval
  | CallComplete
  | CallSubscribe Observer
  | CallUnsubscribe nat

fun call :: "subject_call \<Rightarrow> SafeFlowSubject \<Rightarrow> SafeFlowSubject \<times> event list" where
  "call (CallNext v) s = Subject_next v s"
| "call (CallError e) s = Subject_error e s"
| "call CallComplete s = Subject_complete s"
| "call (CallSubscribe ob) s = snd (Subject_subscribe ob s)"
| "call (CallUnsubscribe i) s = (snd (unsubscribe \<lparr>subscriber = i, closed = False\<rparr> s), [])"

fun calls :: "subject_call list \<Rightarrow> SafeFlowSubject \<Rightarrow> SafeFlowSubject \<times> event list" where
  "calls [] s = (s, [])"
| "calls (c # cs) s =
     (let (s1, ev1) = call c s; (s2, ev2) = calls cs s1 in (s2, ev1 @ ev2))"

fun terminates :: "subject_call \<Rightarrow> bool" where
  "terminates (CallError e) = True"
| "terminates CallComplete = True"
| "terminates c = False"

text \<open>The value of the last \<^verbatim>\<open>next\<close> call of a history, if there is one.\<close>

fun latest :: "subject_call list \<Rightarrow> jsval option" where
  "latest [] = None"
| "latest (c # cs) =
     (case latest cs of
        Some v \<Rightarrow> Some v
      | None \<Rightarrow> (case c of CallNext v \<Rightarrow> Some v | _ \<Rightarrow> None))"

section \<open>The transaction manager (transaction/transaction-manager.ts)\<close>

datatype TransactionStatus = PENDING | COMMITTED | ROLLED_BACK

datatype IsolationLevel = READ_UNCOMMITTED | READ_COMMITTED | REPEATABLE_READ | SERIALIZABLE

text \<open>Every field of \<^verbatim>\<open>TransactionOptions\<close> is optional: \<open>None\<close> is a missing field.\<close>

record TransactionOptions =
  timeout :: "int option"
  autoRetry :: "bool option"
  maxRetries :: "int option"
  retryDelay :: "int option"
  optimisticLocking :: "bool option"
  isolationLevel :: "IsolationLevel option"

definition noOptions :: TransactionOptions where
  "noOptions = \<lparr>timeout = None, autoRetry = None, maxRetries = None, retryDelay = None,
     optimisticLocking = None, isolationLevel = None\<rparr>"

definition DEFAULT_TRANSACTION_OPTIONS :: TransactionOptions where
  "DEFAULT_TRANSACTION_OPTIONS = \<lparr>timeout = Some 30000, autoRetry = Some False,
     maxRetries = Some 3, retryDelay = Some 1000, optimisticLocking = Some False,
     isolationLevel = Some READ_COMMITTED\<rparr>"

text \<open>
  One field of the spread \<^verbatim>\<open>{ ...defaults, ...options }\<close>: a field that is given wins.
  (A field given as \<^verbatim>\<open>undefined\<close> is not told apart from a missing one.)
\<close>

fun given :: "'a option \<Rightarrow> 'a option \<Rightarrow> 'a option" where
  "given d None = d"
| "given d (Some x) = Some x"

definition mergeOptions :: "TransactionOptions \<Rightarrow> TransactionOptions \<Rightarrow> TransactionOptions" where
  "mergeOptions d opts = \<lparr>timeout = given (timeout d) (timeout opts),
     autoRetry = given (autoRetry d) (autoRetry opts),
     maxRetries = given (maxRetries d) (maxRetries opts),
     retryDelay = given (retryDelay d) (retryDelay opts),
     optimisticLocking = given (optimisticLocking d) (optimisticLocking opts),
     isolationLevel = given (isolationLevel d) (isolationLevel opts)\<rparr>"

text \<open>Truthiness of an optional number and of an optional boolean.\<close>

fun truthyNum :: "int option \<Rightarrow> bool" where
  "truthyNum None = False"
| "truthyNum (Some n) = (n \<noteq> 0)"

fun truthyBool :: "bool option \<Rightarrow> bool" where
  "truthyBool None = False"
| "truthyBool (Some b) = b"

text \<open>\<^verbatim>\<open>n > 0\<close> on an optional number: \<^verbatim>\<open>undefined > 0\<close> is false.\<close>

fun positive :: "int option \<Rightarrow> bool" where
  "positive None = False"
| "positive (Some n) = (0 < n)"

record TransactionMetadata =
  txid :: nat
  startTime :: int
  endTime :: "int option"
  status :: TransactionStatus
  options :: TransactionOptions

text \<open>
  \<open>data\<close> is the object attached to the context (\<open>None\<close> when it is \<^verbatim>\<open>null\<close> or
  \<^verbatim>\<open>undefined\<close>), held with its fields.
\<close>

record TransactionContext =
  metadata :: TransactionMetadata
  data :: "obj option"

datatype OperationType = OpCreate | OpRead | OpUpdate | OpDelete

record TransactionOperation =
  opType :: OperationType
  target :: string
  opData :: "jsval option"
  timestamp :: int

record TransactionLog =
  transactionId :: nat
  operations :: "TransactionOperation list"

text \<open>
  The two private fields of the manager. \<open>activeTransactions\<close> is the
  \<^verbatim>\<open>Map<string, TransactionContext>\<close>, given by its keys in insertion order; the
  value under a key is the context object of that id, which lives in the world's
  \<open>contexts\<close>.
\<close>

record TransactionManager =
  activeTransactions :: "nat list"
  transactionLogs :: "TransactionLog list"

text \<open>
  What the code runs in. \<open>objects\<close> is the heap of plain objects, allocated at
  \<open>nextAddr\<close>. \<open>contexts\<close> holds every context object created so far, under its
  id: \<^verbatim>\<open>uuidv4()\<close> is modelled as a supply of fresh ids, \<open>nextUuid\<close>, and a
  context object is named by its id, so the context the caller holds and the one in
  the manager's map are one object. \<open>clock\<close> is \<^verbatim>\<open>Date.now()\<close>, \<open>timers\<close> the
  watchdogs set by \<^verbatim>\<open>setTimeout\<close> (deadline and context), \<open>trace\<close> the callbacks
  invoked and the console, and \<open>user\<close> the state of the caller's own code.
\<close>

record 'u world =
  objects :: "addr \<rightharpoonup> obj"
  nextAddr :: addr
  contexts :: "nat \<rightharpoonup> TransactionContext"
  nextUuid :: nat
  clock :: int
  timers :: "(int \<times> nat) list"
  trace :: "event list"
  manager :: TransactionManager
  user :: 'u

definition newManager :: TransactionManager where
  "newManager = \<lparr>activeTransactions = [], transactionLogs = []\<rparr>"

definition newWorld :: "'u \<Rightarrow> 'u world" where
  "newWorld u = \<lparr>objects = Map.empty, nextAddr = 0, contexts = Map.empty, nextUuid = 0,
     clock = 0, timers = [], trace = [], manager = newManager, user = u\<rparr>"

text \<open>\<^verbatim>\<open>Map.set\<close> keeps the place of a key that is there and appends a new one.\<close>

definition mapSet :: "nat \<Rightarrow> nat list \<Rightarrow> nat list" where
  "mapSet i ks = (if i \<in> set ks then ks else ks @ [i])"

definition mapDelete :: "nat \<Rightarrow> nat list \<Rightarrow> nat list" where
  "mapDelete i ks = filter (\<lambda>k. k \<noteq> i) ks"

definition setActive :: "nat list \<Rightarrow> 'u world \<Rightarrow> 'u world" where
  "setActive ks w = w\<lparr>manager := (manager w)\<lparr>activeTransactions := ks\<rparr>\<rparr>"

definition isTransactionActive :: "nat \<Rightarrow> 'u world \<Rightarrow> bool" where
  "isTransactionActive i w = (i \<in> set (activeTransactions (manager w)))"

definition getActiveTransactions :: "'u world \<Rightarrow> TransactionContext list" where
  "getActiveTransactions w =
     concat (map (\<lambda>i. case contexts w i of None \<Rightarrow> [] | Some c \<Rightarrow> [c])
       (activeTransactions (manager w)))"

text \<open>
  \<^verbatim>\<open>beginTransaction\<close>: a context with a fresh id, the merged options, status
  PENDING and empty data, put into the map; a watchdog is set when the merged timeout
  is truthy. The result is the id of the new context object.
\<close>

definition beginTransaction :: "TransactionOptions \<Rightarrow> 'u world \<Rightarrow> nat \<times> 'u world" where
  "beginTransaction opts w =
     (let mergedOptions = mergeOptions DEFAULT_TRANSACTION_OPTIONS opts;
          i = nextUuid w;
          md = \<lparr>txid = i, startTime = clock w, endTime = None, status = PENDING,
                options = mergedOptions\<rparr>;
          context = \<lparr>metadata = md, data = Some Map.empty\<rparr>;
          w1 = setActive (mapSet i (activeTransactions (manager w)))
                 (w\<lparr>contexts := (contexts w)(i \<mapsto> context), nextUuid := Suc i\<rparr>)
      in (i, if truthyNum (timeout mergedOptions)
             then w1\<lparr>timers := timers w1 @ [(clock w + the (timeout mergedOptions), i)]\<rparr>
             else w1))"

text \<open>
  \<^verbatim>\<open>commitTransaction\<close> and \<^verbatim>\<open>rollbackTransaction\<close> differ in the status they
  set. Both throw when the id is not in the map, and when the context found there is
  not PENDING.
\<close>

definition finishTransaction ::
  "TransactionStatus \<Rightarrow> nat \<Rightarrow> 'u world \<Rightarrow> exn + 'u world" where
  "finishTransaction st i w =
     (if i \<notin> set (activeTransactions (manager w)) then Inl (TransactionNotFound i)
      else case contexts w i of
        None \<Rightarrow> Inl (TransactionNotFound i)
      | Some transaction \<Rightarrow>
          if status (metadata transaction) \<noteq> PENDING then Inl (TransactionNotPending i)
          else Inr (setActive (mapDelete i (activeTransactions (manager w)))
                 (w\<lparr>contexts := (contexts w)(i \<mapsto>
                     transaction\<lparr>metadata := (metadata transaction)
                       \<lparr>status := st, endTime := Some (clock w)\<rparr>\<rparr>)\<rparr>)))"

definition commitTransaction :: "nat \<Rightarrow> 'u world \<Rightarrow> exn + 'u world" where
  "commitTransaction i w = finishTransaction COMMITTED i w"

definition rollbackTransaction :: "nat \<Rightarrow> 'u world \<Rightarrow> exn + 'u world" where
  "rollbackTransaction i w = finishTransaction ROLLED_BACK i w"

text \<open>
  The watchdog set by \<^verbatim>\<open>beginTransaction\<close>: when the context is still in the map and
  PENDING it is rolled back and an error is thrown from the timer, where nothing
  catches it.
\<close>

definition watchdog :: "nat \<Rightarrow> 'u world \<Rightarrow> 'u world" where
  "watchdog i w =
     (if i \<in> set (activeTransactions (manager w)) \<and>
         (case contexts w i of None \<Rightarrow> False | Some c \<Rightarrow> status (metadata c) = PENDING)
      then (case rollbackTransaction i w of
              Inl e \<Rightarrow> w\<lparr>trace := trace w @ [Uncaught ''rollback'' i]\<rparr>
            | Inr w1 \<Rightarrow> w1\<lparr>trace := trace w1 @ [Uncaught ''timed out'' i]\<rparr>)
      else w)"

text \<open>
  Time passing: the clock moves on and the watchdogs that are due run, earliest
  deadline first.
\<close>

definition advance :: "int \<Rightarrow> 'u world \<Rightarrow> 'u world" where
  "advance d w =
     (let w1 = w\<lparr>clock := clock w + max 0 d\<rparr>;
          due = sort_key fst (filter (\<lambda>t. fst t \<le> clock w1) (timers w1));
          w2 = w1\<lparr>timers := filter (\<lambda>t. clock w1 < fst t) (timers w1)\<rparr>
      in foldl (\<lambda>v t. watchdog (snd t) v) w2 due)"

text \<open>
  What \<^verbatim>\<open>executeTransaction\<close> hands back: a value, an exception, or (from the retry
  path) a promise, which settles later as the outcome inside it says.
\<close>

datatype 'r outcome = Returned 'r | Threw exn | Promise "'r outcome"

text \<open>
  The body of the \<^verbatim>\<open>try\<close> once the context is there:
  \<^verbatim>\<open>const result = fn(context); this.commitTransaction(context); return result\<close>.
  \<open>Inl\<close> is the exception the \<^verbatim>\<open>catch\<close> receives, with the world as the throw left it.
\<close>

definition attempt ::
  "(nat \<Rightarrow> 'u world \<Rightarrow> (exn + 'r) \<times> 'u world) \<Rightarrow> nat \<Rightarrow> 'u world \<Rightarrow> (exn + 'r) \<times> 'u world" where
  "attempt fn context w =
     (case fn context w of
        (Inl e, w1) \<Rightarrow> (Inl e, w1)
      | (Inr result, w1) \<Rightarrow>
          (case commitTransaction context w1 of
             Inl e \<Rightarrow> (Inl e, w1)
           | Inr w2 \<Rightarrow> (Inr result, w2)))"

text \<open>
  \<^verbatim>\<open>retryTransaction\<close>. Its \<^verbatim>\<open>catch\<close> does not roll back. With more than one retry
  left and a truthy \<^verbatim>\<open>options.retryDelay\<close> it returns a promise whose timer runs the
  next retry; the model lets the delay pass and runs that retry at once, nothing else
  running in between, and the world returned is the one after the promise has settled.
\<close>

function retryTransaction ::
  "(nat \<Rightarrow> 'u world \<Rightarrow> (exn + 'r) \<times> 'u world) \<Rightarrow> TransactionOptions \<Rightarrow> int \<Rightarrow> 'u world
     \<Rightarrow> 'r outcome \<times> 'u world" where
  "retryTransaction fn opts retriesLeft w =
     (let (context, w1) = beginTransaction opts w in
      case attempt fn context w1 of
        (Inr result, w2) \<Rightarrow> (Returned result, w2)
      | (Inl error, w2) \<Rightarrow>
          if retriesLeft > 1 \<and> truthyNum (retryDelay opts)
          then (let (r, w3) = retryTransaction fn opts (retriesLeft - 1)
                                (advance (the (retryDelay opts)) w2)
                in (Promise r, w3))
          else (Threw error, w2))"
  by pat_completeness auto
termination
  by (relation "measure (\<lambda>(fn, opts, retriesLeft, w). nat retriesLeft)") auto

declare retryTransaction.simps [simp del]

definition executeTransaction ::
  "(nat \<Rightarrow> 'u world \<Rightarrow> (exn + 'r) \<times> 'u world) \<Rightarrow> TransactionOptions \<Rightarrow> 'u world
     \<Rightarrow> 'r outcome \<times> 'u world" where
  "executeTransaction fn opts w =
     (let (context, w1) = beginTransaction opts w in
      case attempt fn context w1 of
        (Inr result, w2) \<Rightarrow> (Returned result, w2)
      | (Inl error, w2) \<Rightarrow>
          (case rollbackTransaction context w2 of
             Inl e \<Rightarrow> (Threw e, w2)
           | Inr w3 \<Rightarrow>
               if truthyBool (autoRetry opts) \<and> truthyNum (maxRetries opts)
                    \<and> positive (maxRetries opts)
               then retryTransaction fn opts (the (maxRetries opts)) w3
               else (Threw error, w3)))"

text \<open>\<^verbatim>\<open>logOperation\<close>: the first log of the transaction gets the operation, a new log when there is none.\<close>

fun appendOperation :: "nat \<Rightarrow> TransactionOperation \<Rightarrow> TransactionLog list \<Rightarrow> TransactionLog list" where
  "appendOperation i operation [] = [\<lparr>transactionId = i, operations = [operation]\<rparr>]"
| "appendOperation i operation (l # ls) =
     (if transactionId l = i then l\<lparr>operations := operations l @ [operation]\<rparr> # ls
      else l # appendOperation i operation ls)"

definition logOperation :: "nat \<Rightarrow> TransactionOperation \<Rightarrow> 'u world \<Rightarrow> 'u world" where
  "logOperation i operation w =
     w\<lparr>manager := (manager w)\<lparr>transactionLogs :=
        appendOperation i operation (transactionLogs (manager w))\<rparr>\<rparr>"

text \<open>A body that always throws, counting its invocations in \<open>user\<close>; the error carries the count.\<close>

definition alwaysFails :: "nat \<Rightarrow> nat world \<Rightarrow> (exn + jsval) \<times> nat world" where
  "alwaysFails context w = (Inl (BodyError (user w)), w\<lparr>user := Suc (user w)\<rparr>)"

section \<open>The transactional store (store/transactional-store.ts)\<close>

text \<open>
  The fields of an object, and a new object. A spread \<^verbatim>\<open>{ ...x }\<close> reads the fields of
  \<open>x\<close> and allocates: the copy is one level deep, a field that is a reference is
  copied as the reference.
\<close>

definition fieldsOf :: "'u world \<Rightarrow> addr \<Rightarrow> obj" where
  "fieldsOf w a = (case objects w a of None \<Rightarrow> Map.empty | Some ob \<Rightarrow> ob)"

definition alloc :: "obj \<Rightarrow> 'u world \<Rightarrow> addr \<times> 'u world" where
  "alloc ob w =
     (nextAddr w, w\<lparr>objects := (objects w)(nextAddr w \<mapsto> ob), nextAddr := Suc (nextAddr w)\<rparr>)"

text \<open>Decimal digits of an index, for the keys a spread gives the characters of a string.\<close>

fun decimal :: "nat \<Rightarrow> string" where
  "decimal n =
     (if n < 10 then [char_of (48 + n)] else decimal (n div 10) @ [char_of (48 + n mod 10)])"

declare decimal.simps [simp del]

text \<open>The own enumerable properties that \<^verbatim>\<open>{ ...v }\<close> copies from a value.\<close>

definition ownProps :: "'u world \<Rightarrow> jsval \<Rightarrow> obj" where
  "ownProps w v =
     (case v of
        Ref a \<Rightarrow> fieldsOf w a
      | Str s \<Rightarrow> map_of (map (\<lambda>(i, c). (decimal i, Str [c])) (enumerate 0 s))
      | _ \<Rightarrow> Map.empty)"

text \<open>
  The store's own fields; its \<^verbatim>\<open>transactionManager\<close> is the manager of the world.
  \<open>state\<close> and \<open>initialState\<close> are references to objects.
\<close>

record SafeFlowStore =
  state :: addr
  initialState :: addr
  subject :: SafeFlowSubject

definition newStore :: "obj \<Rightarrow> 'u world \<Rightarrow> SafeFlowStore \<times> 'u world" where
  "newStore init w =
     (let (a0, w1) = alloc init w;
          (a1, w2) = alloc init w1
      in (\<lparr>state = a1, initialState = a0, subject = newSubject\<rparr>, w2))"

definition getState :: "SafeFlowStore \<Rightarrow> 'u world \<Rightarrow> addr \<times> 'u world" where
  "getState st w = alloc (fieldsOf w (state st)) w"

text \<open>\<^verbatim>\<open>this.subject.next(this.getState())\<close>, the last line of five methods.\<close>

definition publish :: "SafeFlowStore \<Rightarrow> 'u world \<Rightarrow> SafeFlowStore \<times> 'u world" where
  "publish st w =
     (let (a, w1) = getState st w;
          (s1, ev) = Subject_next (Ref a) (subject st)
      in (st\<lparr>subject := s1\<rparr>, w1\<lparr>trace := trace w1 @ ev\<rparr>))"

definition setState :: "obj \<Rightarrow> SafeFlowStore \<Rightarrow> 'u world \<Rightarrow> SafeFlowStore \<times> 'u world" where
  "setState partial st w =
     (let (a, w1) = alloc (fieldsOf w (state st) ++ partial) w
      in publish (st\<lparr>state := a\<rparr>) w1)"

definition resetState :: "SafeFlowStore \<Rightarrow> 'u world \<Rightarrow> SafeFlowStore \<times> 'u world" where
  "resetState st w =
     (let (a, w1) = alloc (fieldsOf w (initialState st)) w
      in publish (st\<lparr>state := a\<rparr>) w1)"

definition Store_subscribe ::
  "Observer \<Rightarrow> SafeFlowStore \<Rightarrow> 'u world \<Rightarrow> (exn + Subscription) \<times> SafeFlowStore \<times> 'u world" where
  "Store_subscribe ob st w =
     (let (r, s1, ev) = Subject_subscribe ob (subject st)
      in (r, st\<lparr>subject := s1\<rparr>, w\<lparr>trace := trace w @ ev\<rparr>))"

text \<open>
  The store's \<^verbatim>\<open>beginTransaction\<close> replaces the data of the context the manager made
  by an object whose \<^verbatim>\<open>snapshot\<close> is a copy of the state.
\<close>

definition Store_beginTransaction ::
  "TransactionOptions \<Rightarrow> SafeFlowStore \<Rightarrow> 'u world \<Rightarrow> nat \<times> 'u world" where
  "Store_beginTransaction opts st w =
     (let (context, w1) = beginTransaction opts w;
          (a, w2) = alloc (fieldsOf w1 (state st)) w1
      in (context,
          case contexts w2 context of
            None \<Rightarrow> w2
          | Some c \<Rightarrow> w2\<lparr>contexts := (contexts w2)(context \<mapsto>
                        c\<lparr>data := Some [''snapshot'' \<mapsto> Ref a]\<rparr>)\<rparr>))"

definition Store_commitTransaction ::
  "nat \<Rightarrow> SafeFlowStore \<Rightarrow> 'u world \<Rightarrow> (exn + unit) \<times> SafeFlowStore \<times> 'u world" where
  "Store_commitTransaction context st w =
     (case commitTransaction context w of
        Inl e \<Rightarrow> (Inl e, st, w)
      | Inr w1 \<Rightarrow> (let (st1, w2) = publish st w1 in (Inr (), st1, w2)))"

text \<open>
  The value of \<^verbatim>\<open>context.data && context.data.snapshot\<close>; a context object that does
  not exist reads as one without data.
\<close>

definition snapshotOf :: "'u world \<Rightarrow> nat \<Rightarrow> jsval" where
  "snapshotOf w context =
     (case contexts w context of
        None \<Rightarrow> Undefined
      | Some c \<Rightarrow>
          (case data c of
             None \<Rightarrow> Undefined
           | Some d \<Rightarrow> (case d ''snapshot'' of None \<Rightarrow> Undefined | Some v \<Rightarrow> v)))"

text \<open>
  The store's \<^verbatim>\<open>rollbackTransaction\<close>: the state is restored first, from a truthy
  snapshot, then the manager rolls back (and may throw), then the state is published.
\<close>

definition Store_rollbackTransaction ::
  "nat \<Rightarrow> SafeFlowStore \<Rightarrow> 'u world \<Rightarrow> (exn + unit) \<times> SafeFlowStore \<times> 'u world" where
  "Store_rollbackTransaction context st w =
     (let (st1, w1) =
            (if truthy (snapshotOf w context)
             then (let (a, w0) = alloc (ownProps w (snapshotOf w context)) w
                   in (st\<lparr>state := a\<rparr>, w0))
             else (st, w))
      in case rollbackTransaction context w1 of
           Inl e \<Rightarrow> (Inl e, st1, w1)
         | Inr w2 \<Rightarrow> (let (st2, w3) = publish st1 w2 in (Inr (), st2, w3)))"

text \<open>
  What a caller can do with a reference it holds: assign a property of the object,
  \<^verbatim>\<open>x.k = v\<close>.
\<close>

definition assign :: "addr \<Rightarrow> string \<Rightarrow> jsval \<Rightarrow> 'u world \<Rightarrow> 'u world" where
  "assign a k v w = w\<lparr>objects := (objects w)(a \<mapsto> (fieldsOf w a)(k \<mapsto> v))\<rparr>"

text \<open>Reading \<^verbatim>\<open>x.k\<close> and \<^verbatim>\<open>x.k.j\<close>, \<^verbatim>\<open>undefined\<close> for what is missing.\<close>

definition getProp :: "'u world \<Rightarrow> jsval \<Rightarrow> string \<Rightarrow> jsval" where
  "getProp w v k =
     (case v of
        Ref a \<Rightarrow> (case fieldsOf w a k of None \<Rightarrow> Undefined | Some x \<Rightarrow> x)
      | _ \<Rightarrow> Undefined)"


text \<open>
  The ids in the manager's map were all handed out by the supply: what
  \<^verbatim>\<open>uuidv4()\<close> returns next is not among them.
\<close>

definition freshIds :: "'u world \<Rightarrow> bool" where
  "freshIds w = list_all (\<lambda>i. i < nextUuid w) (activeTransactions (manager w))"

text \<open>
  The end-to-end scenario: a store on \<^verbatim>\<open>{count: 0}\<close>, \<^verbatim>\<open>setState({count: 1})\<close>,
  \<^verbatim>\<open>setState({count: 2})\<close>, \<^verbatim>\<open>subscribe(fn)\<close> with \<open>fn\<close> the observer 0,
  \<^verbatim>\<open>beginTransaction()\<close>, \<^verbatim>\<open>setState({count: 99})\<close>, \<^verbatim>\<open>rollbackTransaction(ctx)\<close>.
\<close>

definition quiet :: "nat \<Rightarrow> Observer" where
  "quiet i = \<lparr>oid = i, raises = \<lambda>n. False, unsubscribes = \<lambda>n. []\<rparr>"

text \<open>
  An observer whose \<^verbatim>\<open>next\<close> callback unsubscribes it when it is called with the
  object at a given address, as a callback does that looks at the value it is sent.
\<close>

definition leaverAt :: "addr \<Rightarrow> nat \<Rightarrow> Observer" where
  "leaverAt a i = \<lparr>oid = i, raises = \<lambda>n. False,
     unsubscribes = \<lambda>n. (if n = Next (Ref a) then [i] else [])\<rparr>"

text \<open>
  An observer none of whose callbacks unsubscribes anything, and the callback
  invocations on a trace, in order.
\<close>

definition steady :: "Observer \<Rightarrow> bool" where
  "steady ob = (\<forall>n. unsubscribes ob n = [])"


definition scenario :: "(exn + unit) \<times> SafeFlowStore \<times> unit world" where
  "scenario =
     (let (st0, w0) = newStore [''count'' \<mapsto> Num 0] (newWorld ());
          (st1, w1) = setState [''count'' \<mapsto> Num 1] st0 w0;
          (st2, w2) = setState [''count'' \<mapsto> Num 2] st1 w1;
          (sub, st3, w3) = Store_subscribe (quiet 0) st2 w2;
          (ctx, w4) = Store_beginTransaction noOptions st3 w3;
          (st5, w5) = setState [''count'' \<mapsto> Num 99] st3 w4
      in Store_rollbackTransaction ctx st5 w5)"

text \<open>
  A store whose state holds a nested object: \<^verbatim>\<open>{user: {name: "a"}}\<close>. The nested
  object is at address 0.
\<close>

definition nestedStore :: "SafeFlowStore \<times> unit world" where
  "nestedStore =
     (let (n, w0) = alloc [''name'' \<mapsto> Str ''a''] (newWorld ())
      in newStore [''user'' \<mapsto> Ref n] w0)"

text \<open>
  A store on \<^verbatim>\<open>{count: 2}\<close> with the observers 0 and 1 subscribed, and the same
  store where the \<^verbatim>\<open>next\<close> callback of observer 0 unsubscribes it when it is sent
  the object at a given address.
\<close>

definition watchedStore :: "SafeFlowStore \<times> unit world" where
  "watchedStore =
     (let (st0, w0) = newStore [''count'' \<mapsto> Num 2] (newWorld ());
          (sub1, st1, w1) = Store_subscribe (quiet 0) st0 w0;
          (sub2, st2, w2) = Store_subscribe (quiet 1) st1 w1
      in (st2, w2))"

definition leavingStore :: "addr \<Rightarrow> SafeFlowStore \<times> unit world" where
  "leavingStore a =
     (let (st0, w0) = newStore [''count'' \<mapsto> Num 2] (newWorld ());
          (sub1, st1, w1) = Store_subscribe (leaverAt a 0) st0 w0;
          (sub2, st2, w2) = Store_subscribe (quiet 1) st1 w1
      in (st2, w2))"

text \<open>
  The store of the end-to-end scenario when \<^verbatim>\<open>beginTransaction()\<close> is called:
  \<^verbatim>\<open>{count: 2}\<close> after two \<^verbatim>\<open>setState\<close> calls, with \<open>fn\<close> subscribed.
\<close>

definition scenarioStore :: "SafeFlowStore \<times> unit world" where
  "scenarioStore =
     (let (st0, w0) = newStore [''count'' \<mapsto> Num 0] (newWorld ());
          (st1, w1) = setState [''count'' \<mapsto> Num 1] st0 w0;
          (st2, w2) = setState [''count'' \<mapsto> Num 2] st1 w1;
          (sub, st3, w3) = Store_subscribe (quiet 0) st2 w2
      in (st3, w3))"

section \<open>The other transaction manager (src/transaction/transaction-manager.ts)\<close>

text \<open>
  The repository has a second class named \<^verbatim>\<open>TransactionManager\<close>, of the framework
  core, which the store does not use. It keeps one current transaction and a stack.
  Its context has no options and no data; the id and the time are given to the model.
\<close>

record CoreContext =
  coreId :: nat
  coreStatus :: TransactionStatus
  coreStart :: int
  coreEnd :: "int option"

record CoreManager =
  currentTransaction :: "CoreContext option"
  transactionStack :: "CoreContext list"

definition Core_beginTransaction :: "nat \<Rightarrow> int \<Rightarrow> CoreManager \<Rightarrow> CoreContext \<times> CoreManager" where
  "Core_beginTransaction i now m =
     (let t = \<lparr>coreId = i, coreStatus = PENDING, coreStart = now, coreEnd = None\<rparr>
      in (t, \<lparr>currentTransaction = Some t,
              transactionStack = (case currentTransaction m of
                                    None \<Rightarrow> transactionStack m
                                  | Some c \<Rightarrow> transactionStack m @ [c])\<rparr>))"

text \<open>\<^verbatim>\<open>Array.pop\<close>: the last element, \<^verbatim>\<open>undefined\<close> from an empty array.\<close>

fun pop :: "'a list \<Rightarrow> 'a option \<times> 'a list" where
  "pop [] = (None, [])"
| "pop (x # xs) = (Some (last (x # xs)), butlast (x # xs))"

text \<open>\<^verbatim>\<open>commit\<close> and \<^verbatim>\<open>rollback\<close> of that class; the result holds the context they ended.\<close>

definition Core_finish ::
  "TransactionStatus \<Rightarrow> int \<Rightarrow> CoreManager \<Rightarrow> exn + (CoreContext \<times> CoreManager)" where
  "Core_finish st now m =
     (case currentTransaction m of
        None \<Rightarrow> Inl NoActiveTransaction
      | Some c \<Rightarrow>
          Inr (c\<lparr>coreStatus := st, coreEnd := Some now\<rparr>,
               \<lparr>currentTransaction = fst (pop (transactionStack m)),
                transactionStack = snd (pop (transactionStack m))\<rparr>))"

definition Core_commit :: "int \<Rightarrow> CoreManager \<Rightarrow> exn + (CoreContext \<times> CoreManager)" where
  "Core_commit now m = Core_finish COMMITTED now m"

definition Core_rollback :: "int \<Rightarrow> CoreManager \<Rightarrow> exn + (CoreContext \<times> CoreManager)" where
  "Core_rollback now m = Core_finish ROLLED_BACK now m"

section \<open>Properties of the subject\<close>

text \<open>
  When no callback unsubscribes, the loop leaves the array as it is and calls every
  observer once, in the order of the array.
\<close>

lemma invoke_steady: "steady ob \<Longrightarrow> invoke ob n obs = obs"
  by (simp add: invoke_def steady_def)





text \<open>The first observer of the array is always called.\<close>

lemma deliver_first:
  "deliver n 0 (ob # obs) = (fst (deliver n 1 (invoke ob n (ob # obs))),
     emit n ob @ snd (deliver n 1 (invoke ob n (ob # obs))))"
  by (subst deliver.simps) (simp add: split_beta)

lemma call_keeps_open:
  "\<not> isClosed s \<Longrightarrow> \<not> terminates c \<Longrightarrow> \<not> isClosed (fst (call c s))"
  by (cases c)
    (auto simp: Subject_next_def Subject_subscribe_def unsubscribe_def Let_def split_beta)

lemma call_keeps_value:
  "\<not> terminates c \<Longrightarrow> (case c of CallNext v \<Rightarrow> False | _ \<Rightarrow> True) \<Longrightarrow>
   lastValue (fst (call c s)) = lastValue s \<and> hasValue (fst (call c s)) = hasValue s"
  by (cases c) (auto simp: Subject_subscribe_def unsubscribe_def Let_def)

lemma calls_keep_open:
  "\<not> isClosed s \<Longrightarrow> \<forall>c\<in>set cs. \<not> terminates c \<Longrightarrow> \<not> isClosed (fst (calls cs s))"
proof (induction cs arbitrary: s)
  case Nil
  then show ?case by simp
next
  case (Cons c cs)
  from Cons.prems have t: "\<not> terminates c" and ts: "\<forall>c\<in>set cs. \<not> terminates c" by auto
  from Cons.IH [OF call_keeps_open [OF Cons.prems(1) t] ts] show ?case
    by (simp add: split_beta)
qed

lemma calls_no_next:
  "\<forall>c\<in>set cs. \<not> terminates c \<Longrightarrow> latest cs = None \<Longrightarrow>
   lastValue (fst (calls cs s)) = lastValue s \<and> hasValue (fst (calls cs s)) = hasValue s"
proof (induction cs arbitrary: s)
  case Nil
  then show ?case by simp
next
  case (Cons c cs)
  from Cons.prems have n: "latest cs = None" and c: "case c of CallNext v \<Rightarrow> False | _ \<Rightarrow> True"
    by (auto split: option.splits subject_call.splits)
  from Cons.prems have t: "\<not> terminates c" and ts: "\<forall>c\<in>set cs. \<not> terminates c" by auto
  show ?case
    using Cons.IH [OF ts n, of "fst (call c s)"] call_keeps_value [OF t c, of s]
    by (simp add: split_beta)
qed

lemma calls_latest:
  "\<not> isClosed s \<Longrightarrow> \<forall>c\<in>set cs. \<not> terminates c \<Longrightarrow> latest cs = Some v \<Longrightarrow>
   hasValue (fst (calls cs s)) \<and> lastValue (fst (calls cs s)) = v"
proof (induction cs arbitrary: s)
  case Nil
  then show ?case by simp
next
  case (Cons c cs)
  from Cons.prems have t: "\<not> terminates c" and ts: "\<forall>c\<in>set cs. \<not> terminates c" by auto
  have o: "\<not> isClosed (fst (call c s))" using call_keeps_open [OF Cons.prems(1) t] .
  show ?case
  proof (cases "latest cs")
    case (Some u)
    with Cons.prems(3) have "latest cs = Some v" by simp
    from Cons.IH [OF o ts this] show ?thesis by (simp add: split_beta)
  next
    case None
    with Cons.prems(3) have cv: "c = CallNext v" by (auto split: subject_call.splits)
    show ?thesis
      using calls_no_next [OF ts None, of "fst (call c s)"] Cons.prems(1) cv
      by (simp add: split_beta Subject_next_def Let_def)
  qed
qed

text \<open>Termination is permanent, and \<^verbatim>\<open>next\<close> on a closed subject reaches nobody.\<close>

lemma call_stays_closed: "isClosed s \<Longrightarrow> isClosed (fst (call c s))"
  by (cases c)
    (auto simp: Subject_next_def Subject_error_def Subject_complete_def Subject_subscribe_def
       unsubscribe_def Let_def split_beta)

lemma calls_stay_closed: "isClosed s \<Longrightarrow> isClosed (fst (calls cs s))"
proof (induction cs arbitrary: s)
  case Nil
  then show ?case by simp
next
  case (Cons c cs)
  from Cons.IH [OF call_stays_closed [OF Cons.prems]] show ?case by (simp add: split_beta)
qed

lemma next_inert_after_termination:
  "isClosed s \<Longrightarrow> Subject_next v (fst (calls cs s)) = (fst (calls cs s), [])"
  using calls_stay_closed [of s cs] by (simp add: Subject_next_def)

lemma subscribe_after_termination_counts:
  "isClosed s \<Longrightarrow> steady ob \<Longrightarrow>
   getObserverCount (fst (snd (Subject_subscribe ob s))) = Suc (getObserverCount s)"
  by (simp add: Subject_subscribe_def getObserverCount_def Let_def invoke_steady)

text \<open>
  C6. The claim: once \<^verbatim>\<open>error()\<close> or \<^verbatim>\<open>complete()\<close> has been called, no later
  \<^verbatim>\<open>next\<close> reaches an observer and \<^verbatim>\<open>getObserverCount()\<close> is 0 at every later
  point, also after further \<^verbatim>\<open>subscribe\<close> calls. The first half holds
  (\<open>next_inert_after_termination\<close>). The second does not: \<^verbatim>\<open>subscribe\<close> pushes
  the observer before it looks at the closed flag, so on a fresh subject
  \<^verbatim>\<open>complete()\<close> followed by \<^verbatim>\<open>subscribe(observer)\<close> leaves the count at 1,
  although \<^verbatim>\<open>complete\<close> itself clears the list.
\<close>

theorem count_after_termination:
  "isClosed (fst (Subject_complete newSubject))
   \<and> getObserverCount (fst (Subject_complete newSubject)) = 0
   \<and> getObserverCount (fst (snd (Subject_subscribe (quiet 7)
        (fst (Subject_complete newSubject))))) = 1"
  by (simp add: newSubject_def Subject_complete_def Subject_subscribe_def getObserverCount_def
      quiet_def invoke_def deliver.simps)

text \<open>
  C7, as the claim states it, fails: a subject that is open and whose latest
  \<^verbatim>\<open>next\<close> value is \<^verbatim>\<open>undefined\<close> sends a new subscriber nothing, because the
  replay is guarded by \<^verbatim>\<open>this.lastValue !== undefined\<close>.
\<close>

theorem subscribe_skips_undefined:
  "\<not> isClosed (fst (calls [CallNext Undefined] newSubject))
   \<and> latest [CallNext Undefined] = Some Undefined
   \<and> snd (snd (Subject_subscribe (quiet 7) (fst (calls [CallNext Undefined] newSubject)))) = []"
  by (simp add: newSubject_def Subject_next_def Subject_subscribe_def quiet_def deliver.simps)

text \<open>
  C7, amended. On a subject that is not terminated, after any history of calls without
  \<^verbatim>\<open>error\<close> or \<^verbatim>\<open>complete\<close> whose latest \<^verbatim>\<open>next\<close> value is \<open>v\<close>, a new
  \<^verbatim>\<open>subscribe(observer)\<close> invokes the observer's \<^verbatim>\<open>next\<close> with \<open>v\<close> inside the
  call when \<open>v\<close> is not \<^verbatim>\<open>undefined\<close>, that delivery being the one event of the
  call, and invokes nothing when \<open>v\<close> is \<^verbatim>\<open>undefined\<close>.
\<close>

theorem subscribe_replays_latest:
  assumes "\<not> isClosed s" and "list_all (\<lambda>c. \<not> terminates c) cs" and "latest cs = Some v"
  shows "snd (snd (Subject_subscribe ob (fst (calls cs s))))
     = (if v = Undefined then [] else [Delivered (oid ob) (Next v)])"
proof -
  from assms(2) have t: "\<forall>c\<in>set cs. \<not> terminates c" by (simp add: list_all_iff)
  show ?thesis
    using calls_latest [OF assms(1) t assms(3)] calls_keep_open [OF assms(1) t]
    by (simp add: Subject_subscribe_def Let_def)
qed

theorem subscribe_replays_latest_witness:
  "\<not> isClosed newSubject \<and> list_all (\<lambda>c. \<not> terminates c) [CallNext (Num 1), CallNext (Num 2)]
   \<and> latest [CallNext (Num 1), CallNext (Num 2)] = Some (Num 2) \<and> Num 2 \<noteq> Undefined
   \<and> snd (snd (Subject_subscribe (quiet 7)
        (fst (calls [CallNext (Num 1), CallNext (Num 2)] newSubject))))
      = [Delivered 7 (Next (Num 2))]
   \<and> list_all (\<lambda>c. \<not> terminates c) [CallNext (Num 1), CallNext Undefined]
   \<and> latest [CallNext (Num 1), CallNext Undefined] = Some Undefined
   \<and> snd (snd (Subject_subscribe (quiet 7)
        (fst (calls [CallNext (Num 1), CallNext Undefined] newSubject)))) = []"
  using subscribe_replays_latest [of newSubject "[CallNext (Num 1), CallNext (Num 2)]" "Num 2"
      "quiet 7"]
    subscribe_replays_latest [of newSubject "[CallNext (Num 1), CallNext Undefined]" Undefined
      "quiet 7"]
  by (simp add: newSubject_def quiet_def)

section \<open>Properties of the transaction manager\<close>

lemma begin_user: "user (snd (beginTransaction opts w)) = user w"
  by (simp add: beginTransaction_def Let_def setActive_def)

lemma finish_user: "finishTransaction t i w = Inr w1 \<Longrightarrow> user w1 = user w"
  by (auto simp: finishTransaction_def setActive_def split: if_splits option.splits)

lemma watchdog_user: "user (watchdog i w) = user w"
  by (auto simp: watchdog_def rollbackTransaction_def dest: finish_user split: sum.splits)

lemma fold_watchdog_user: "user (foldl (\<lambda>v t. watchdog (snd t) v) w ts) = user w"
  by (induction ts arbitrary: w) (simp_all add: watchdog_user)

lemma advance_user: "user (advance d w) = user w"
  by (simp add: advance_def Let_def fold_watchdog_user)

lemma attempt_alwaysFails:
  "attempt alwaysFails c w = (Inl (BodyError (user w)), w\<lparr>user := Suc (user w)\<rparr>)"
  by (simp add: attempt_def alwaysFails_def)

text \<open>
  How often the retry path calls a body that always fails: as often as there are
  retries when \<^verbatim>\<open>options.retryDelay\<close> is given and not 0, once when it is not.
\<close>

lemma retry_alwaysFails:
  assumes "truthyNum (retryDelay opts)" and "1 \<le> n"
  shows "user (snd (retryTransaction alwaysFails opts n w)) = user w + nat n"
  using assms(2)
proof (induction n arbitrary: w rule: int_ge_induct)
  case base
  show ?case
    by (subst retryTransaction.simps) (simp add: split_beta attempt_alwaysFails begin_user)
next
  case (step k)
  show ?case
    using step.hyps step.IH assms(1)
    by (subst retryTransaction.simps)
      (simp add: split_beta attempt_alwaysFails begin_user advance_user nat_add_distrib)
qed

lemma retry_alwaysFails_no_delay:
  "\<not> truthyNum (retryDelay opts) \<Longrightarrow>
   user (snd (retryTransaction alwaysFails opts n w)) = Suc (user w)"
  by (subst retryTransaction.simps) (simp add: split_beta attempt_alwaysFails begin_user)

lemma rollback_after_begin:
  "rollbackTransaction (fst (beginTransaction opts w)) ((snd (beginTransaction opts w))\<lparr>user := u\<rparr>)
     \<noteq> Inl e"
  by (simp add: beginTransaction_def rollbackTransaction_def finishTransaction_def Let_def
      setActive_def mapSet_def)

text \<open>
  The number of invocations of an always failing body, for all options: the decision to
  retry and the number of retries read the caller's options, never the defaults.
\<close>

lemma execute_alwaysFails:
  "user (snd (executeTransaction alwaysFails opts w)) =
     (if truthyBool (autoRetry opts) \<and> positive (maxRetries opts)
      then (if truthyNum (retryDelay opts) then Suc (user w) + nat (the (maxRetries opts))
            else Suc (Suc (user w)))
      else Suc (user w))"
proof -
  obtain c w1 where b: "beginTransaction opts w = (c, w1)" by (cases "beginTransaction opts w")
  from b have u1: "user w1 = user w" using begin_user [of opts w] by simp
  obtain w2 where r: "rollbackTransaction c (w1\<lparr>user := Suc (user w)\<rparr>) = Inr w2"
    using rollback_after_begin [of opts w "Suc (user w)"] b
    by (cases "rollbackTransaction c (w1\<lparr>user := Suc (user w)\<rparr>)") auto
  from r have u2: "user w2 = Suc (user w)"
    using finish_user [of ROLLED_BACK c "w1\<lparr>user := Suc (user w)\<rparr>" w2]
    by (simp add: rollbackTransaction_def)
  have p: "positive (maxRetries opts) \<Longrightarrow> truthyNum (maxRetries opts) \<and> 1 \<le> the (maxRetries opts)"
    by (cases "maxRetries opts") auto
  show ?thesis
    using p
    by (auto simp: executeTransaction_def b attempt_alwaysFails u1 r u2 retry_alwaysFails
        retry_alwaysFails_no_delay)
qed

lemmas manager_eval = executeTransaction_def retryTransaction.simps attempt_def alwaysFails_def
  beginTransaction_def rollbackTransaction_def commitTransaction_def finishTransaction_def
  setActive_def mapSet_def mapDelete_def mergeOptions_def DEFAULT_TRANSACTION_OPTIONS_def
  noOptions_def newWorld_def newManager_def Let_def

text \<open>
  C2. The claim: when \<^verbatim>\<open>executeTransaction\<close> has returned or thrown, no context it
  created is still PENDING in the active set, every failed attempt having been rolled
  back. The \<^verbatim>\<open>catch\<close> of \<^verbatim>\<open>executeTransaction\<close> rolls the first attempt back, the
  \<^verbatim>\<open>catch\<close> of \<^verbatim>\<open>retryTransaction\<close> does not: with
  \<^verbatim>\<open>{autoRetry: true, maxRetries: 1}\<close> and a body that always throws, the call throws
  the second error, the first context (id 0) is ROLLED_BACK, and the context of the
  retry (id 1) is left PENDING in the active set.
\<close>

theorem retry_leaves_pending:
  "(case executeTransaction alwaysFails (noOptions\<lparr>autoRetry := Some True, maxRetries := Some 1\<rparr>)
           (newWorld 0) of
      (r, w) \<Rightarrow> r = Threw (BodyError 1) \<and> activeTransactions (manager w) = [1]
        \<and> map_option (\<lambda>c. status (metadata c)) (contexts w 1) = Some PENDING
        \<and> map_option (\<lambda>c. status (metadata c)) (contexts w 0) = Some ROLLED_BACK)"
  by (simp add: manager_eval)

text \<open>
  C3. The claim: with \<^verbatim>\<open>{autoRetry: true, maxRetries: N}\<close> a body that always fails
  is invoked N + 1 times. \<^verbatim>\<open>retryTransaction\<close> goes on to a further retry only when
  \<^verbatim>\<open>options.retryDelay\<close> is truthy, and it reads the caller's options, where no
  delay was given: with N = 2 the body is invoked twice, and the error thrown is the
  one of the second invocation.
\<close>

theorem two_attempts_without_delay:
  "(case executeTransaction alwaysFails (noOptions\<lparr>autoRetry := Some True, maxRetries := Some 2\<rparr>)
           (newWorld 0) of
      (r, w) \<Rightarrow> r = Threw (BodyError 1) \<and> user w = 2)
   \<and> retryDelay (mergeOptions DEFAULT_TRANSACTION_OPTIONS
        (noOptions\<lparr>autoRetry := Some True, maxRetries := Some 2\<rparr>)) = Some 1000"
  by (simp add: manager_eval)

text \<open>
  C4. The claim: the retry procedure is entered exactly when the merged options have
  \<^verbatim>\<open>autoRetry\<close> set and \<^verbatim>\<open>maxRetries > 0\<close>, so \<^verbatim>\<open>{autoRetry: true}\<close> alone
  retries, \<^verbatim>\<open>maxRetries\<close> being 3 by default. \<^verbatim>\<open>executeTransaction\<close> tests
  \<^verbatim>\<open>options.maxRetries\<close> of the caller's options: with \<^verbatim>\<open>{autoRetry: true}\<close> the
  body is invoked once and its error is thrown, although the merged options say
  \<^verbatim>\<open>autoRetry = true\<close> and \<^verbatim>\<open>maxRetries = 3\<close>.
\<close>

theorem no_retry_on_default_maxRetries:
  "(case executeTransaction alwaysFails (noOptions\<lparr>autoRetry := Some True\<rparr>) (newWorld 0) of
      (r, w) \<Rightarrow> r = Threw (BodyError 0) \<and> user w = 1)
   \<and> autoRetry (mergeOptions DEFAULT_TRANSACTION_OPTIONS (noOptions\<lparr>autoRetry := Some True\<rparr>))
       = Some True
   \<and> maxRetries (mergeOptions DEFAULT_TRANSACTION_OPTIONS (noOptions\<lparr>autoRetry := Some True\<rparr>))
       = Some 3"
  by (simp add: manager_eval)

lemma mapDelete_fresh: "i \<notin> set ks \<Longrightarrow> mapDelete i (ks @ [i]) = ks"
  by (auto simp: mapDelete_def filter_id_conv)

lemma begin_active:
  assumes "freshIds w" and "beginTransaction opts w = (inner, w1)"
  shows "inner = nextUuid w" and "inner \<notin> set (activeTransactions (manager w))"
    and "activeTransactions (manager w1) = activeTransactions (manager w) @ [inner]"
    and "contexts w1 = (contexts w)(inner \<mapsto> \<lparr>metadata = \<lparr>txid = inner, startTime = clock w,
         endTime = None, status = PENDING,
         options = mergeOptions DEFAULT_TRANSACTION_OPTIONS opts\<rparr>, data = Some Map.empty\<rparr>)"
    and "transactionLogs (manager w1) = transactionLogs (manager w)"
  using assms
  by (auto simp: beginTransaction_def Let_def setActive_def mapSet_def freshIds_def list_all_iff
      split: if_splits)

text \<open>Fresh ids are kept by the three operations of the manager.\<close>

lemma begin_freshIds: "freshIds w \<Longrightarrow> freshIds (snd (beginTransaction opts w))"
  by (auto simp: beginTransaction_def Let_def setActive_def mapSet_def freshIds_def list_all_iff)

lemma finish_freshIds: "freshIds w \<Longrightarrow> finishTransaction t i w = Inr w1 \<Longrightarrow> freshIds w1"
  by (auto simp: finishTransaction_def setActive_def mapDelete_def freshIds_def list_all_iff
      split: if_splits option.splits)

text \<open>
  C5, as the claim states it, fails on the manager the claim names: it has no stack and
  no current transaction. After two nested \<^verbatim>\<open>beginTransaction\<close> calls on a new manager
  its whole state is the active map with both contexts side by side, and the first
  context is where it was; nothing has been pushed anywhere.
\<close>

theorem nested_begin_pushes_nothing:
  "(case beginTransaction noOptions (newWorld ()) of
      (outer, w1) \<Rightarrow>
        (case beginTransaction noOptions w1 of
           (inner, w2) \<Rightarrow> outer = 0 \<and> inner = 1
             \<and> manager w2 = \<lparr>activeTransactions = [0, 1], transactionLogs = []\<rparr>
             \<and> contexts w2 outer = contexts w1 outer))"
  by (simp add: manager_eval)

text \<open>
  C5, amended. In a manager with an active PENDING context \<open>outer\<close>, a further
  \<^verbatim>\<open>beginTransaction\<close> adds the new context to the active map after the ones that are
  there and leaves \<open>outer\<close> untouched; committing or rolling back the new context
  succeeds and leaves the manager exactly as it was before the inner begin, with
  \<open>outer\<close> still active, PENDING and unchanged.
\<close>

theorem inner_end_keeps_outer:
  assumes "freshIds w" and "isTransactionActive outer w"
    and "contexts w outer = Some c" and "status (metadata c) = PENDING"
  shows "(case beginTransaction opts w of
      (inner, w1) \<Rightarrow> inner \<noteq> outer
        \<and> activeTransactions (manager w1) = activeTransactions (manager w) @ [inner]
        \<and> contexts w1 outer = Some c
        \<and> (case commitTransaction inner w1 of
              Inl e \<Rightarrow> False
            | Inr w2 \<Rightarrow> manager w2 = manager w \<and> isTransactionActive outer w2
                \<and> contexts w2 outer = Some c
                \<and> map_option (\<lambda>x. status (metadata x)) (contexts w2 inner) = Some COMMITTED)
        \<and> (case rollbackTransaction inner w1 of
              Inl e \<Rightarrow> False
            | Inr w2 \<Rightarrow> manager w2 = manager w \<and> isTransactionActive outer w2
                \<and> contexts w2 outer = Some c
                \<and> map_option (\<lambda>x. status (metadata x)) (contexts w2 inner) = Some ROLLED_BACK))"
proof -
  obtain inner w1 where b: "beginTransaction opts w = (inner, w1)"
    by (cases "beginTransaction opts w")
  note a = begin_active [OF assms(1) b]
  from a(2) assms(2) have ne: "inner \<noteq> outer" by (auto simp: isTransactionActive_def)
  from a(2) have d: "mapDelete inner (activeTransactions (manager w) @ [inner])
      = activeTransactions (manager w)"
    by (rule mapDelete_fresh)
  have m: "manager w1\<lparr>activeTransactions := activeTransactions (manager w)\<rparr> = manager w"
    using a(5) by simp
  show ?thesis
    using a(3,4) ne assms(2,3) d m
    by (simp add: b commitTransaction_def rollbackTransaction_def finishTransaction_def
        setActive_def isTransactionActive_def)
qed

theorem inner_end_keeps_outer_witness:
  "(case beginTransaction noOptions (newWorld ()) of
      (outer, w) \<Rightarrow> freshIds w \<and> isTransactionActive outer w
        \<and> map_option (\<lambda>x. status (metadata x)) (contexts w outer) = Some PENDING
        \<and> (case beginTransaction noOptions w of
              (inner, w1) \<Rightarrow> inner \<noteq> outer
                \<and> (case rollbackTransaction inner w1 of
                      Inl e \<Rightarrow> False
                    | Inr w2 \<Rightarrow> manager w2 = manager w \<and> isTransactionActive outer w2
                        \<and> contexts w2 outer = contexts w outer)))"
  using inner_end_keeps_outer [of "snd (beginTransaction noOptions (newWorld ()))" 0
      "the (contexts (snd (beginTransaction noOptions (newWorld ()))) 0)" noOptions]
  by (simp add: manager_eval freshIds_def isTransactionActive_def)

text \<open>
  The stack of the claim is the one of the other manager class: there a begin under a
  current transaction pushes it, and \<^verbatim>\<open>commit\<close> and \<^verbatim>\<open>rollback\<close> pop it back.
\<close>

lemma pop_snoc: "pop (xs @ [x]) = (Some x, xs)"
  by (cases xs) simp_all

lemma core_nested_restores:
  assumes "currentTransaction m = Some outer"
  shows "(case Core_beginTransaction i now m of
      (inner, m1) \<Rightarrow> currentTransaction m1 = Some inner
        \<and> transactionStack m1 = transactionStack m @ [outer]
        \<and> map_sum id snd (Core_commit later m1) = Inr m
        \<and> map_sum id snd (Core_rollback later m1) = Inr m)"
  using assms
  by (cases m)
    (simp add: Core_beginTransaction_def Core_commit_def Core_rollback_def Core_finish_def
       pop_snoc Let_def)

section \<open>Properties of the store\<close>

lemma publish_open:
  assumes "\<not> isClosed (subject st)"
  shows "publish st w =
     (st\<lparr>subject := (subject st)\<lparr>lastValue := Ref (nextAddr w), hasValue := True,
          observers := fst (deliver (Next (Ref (nextAddr w))) 0 (observers (subject st)))\<rparr>\<rparr>,
      w\<lparr>objects := (objects w)(nextAddr w \<mapsto> fieldsOf w (state st)), nextAddr := Suc (nextAddr w),
        trace := trace w @ snd (deliver (Next (Ref (nextAddr w))) 0 (observers (subject st)))\<rparr>)"
  using assms by (simp add: publish_def getState_def alloc_def Subject_next_def split_beta)

lemma setState_open:
  assumes "\<not> isClosed (subject st)"
  shows "setState p st w =
     (st\<lparr>state := nextAddr w,
         subject := (subject st)\<lparr>lastValue := Ref (Suc (nextAddr w)), hasValue := True,
           observers := fst (deliver (Next (Ref (Suc (nextAddr w)))) 0 (observers (subject st)))\<rparr>\<rparr>,
      w\<lparr>objects := (objects w)(nextAddr w \<mapsto> fieldsOf w (state st) ++ p,
            Suc (nextAddr w) \<mapsto> fieldsOf w (state st) ++ p),
        nextAddr := Suc (Suc (nextAddr w)),
        trace := trace w @ snd (deliver (Next (Ref (Suc (nextAddr w)))) 0 (observers (subject st)))\<rparr>)"
  using assms by (simp add: setState_def alloc_def publish_open fieldsOf_def)

text \<open>
  No method of the store calls \<^verbatim>\<open>error\<close> or \<^verbatim>\<open>complete\<close> on its subject, which is
  private: the subject of a store is open from \<^verbatim>\<open>new SafeFlowStore\<close> on, and the
  state of a store is an allocated object.
\<close>

lemma newStore_ready:
  "\<not> isClosed (subject (fst (newStore init w)))
   \<and> state (fst (newStore init w)) < nextAddr (snd (newStore init w))"
  by (simp add: newStore_def alloc_def newSubject_def)

lemma publish_keeps_open: "isClosed (subject (fst (publish st w))) = isClosed (subject st)"
  by (simp add: publish_def getState_def alloc_def Subject_next_def split_beta)

lemma setState_keeps_open: "isClosed (subject (fst (setState p st w))) = isClosed (subject st)"
  by (simp add: setState_def alloc_def split_beta publish_keeps_open)

lemma resetState_keeps_open: "isClosed (subject (fst (resetState st w))) = isClosed (subject st)"
  by (simp add: resetState_def alloc_def split_beta publish_keeps_open)

lemma subscribe_keeps_open:
  "isClosed (subject (fst (snd (Store_subscribe ob st w)))) = isClosed (subject st)"
  by (simp add: Store_subscribe_def Subject_subscribe_def Let_def split_beta)

lemma commit_keeps_open:
  "isClosed (subject (fst (snd (Store_commitTransaction c st w)))) = isClosed (subject st)"
  by (simp add: Store_commitTransaction_def split_beta publish_keeps_open split: sum.splits)

lemma rollback_keeps_open:
  "isClosed (subject (fst (snd (Store_rollbackTransaction c st w)))) = isClosed (subject st)"
  by (simp add: Store_rollbackTransaction_def split_beta publish_keeps_open Let_def
      split: sum.splits)

lemma setState_allocated:
  "state (fst (setState p st w)) < nextAddr (snd (setState p st w))"
  by (simp add: setState_def publish_def getState_def alloc_def split_beta)

lemma resetState_allocated:
  "state (fst (resetState st w)) < nextAddr (snd (resetState st w))"
  by (simp add: resetState_def publish_def getState_def alloc_def split_beta)

lemma publish_allocated:
  "state st < nextAddr w \<Longrightarrow> state (fst (publish st w)) < nextAddr (snd (publish st w))"
  by (simp add: publish_def getState_def alloc_def split_beta)



lemma begin_store:
  "Store_beginTransaction opts st w =
     (nextUuid w, snd (beginTransaction opts w)
        \<lparr>objects := (objects w)(nextAddr w \<mapsto> fieldsOf w (state st)),
         nextAddr := Suc (nextAddr w),
         contexts := (contexts w)(nextUuid w \<mapsto>
           \<lparr>metadata = \<lparr>txid = nextUuid w, startTime = clock w, endTime = None, status = PENDING,
               options = mergeOptions DEFAULT_TRANSACTION_OPTIONS opts\<rparr>,
            data = Some [''snapshot'' \<mapsto> Ref (nextAddr w)]\<rparr>)\<rparr>)"
  by (simp add: Store_beginTransaction_def beginTransaction_def Let_def alloc_def setActive_def
      fieldsOf_def)


lemma begin_trace: "trace (snd (Store_beginTransaction opts st w)) = trace w"
  by (simp add: begin_store beginTransaction_def Let_def setActive_def)

text \<open>After a \<^verbatim>\<open>setState\<close> a new subscriber of the store is sent the value just published.\<close>

lemma store_subscribe_replays:
  assumes "\<not> isClosed (subject st)"
  shows "(case setState p st w of
      (st1, w1) \<Rightarrow>
        (case Store_subscribe ob st1 w1 of
           (r, st2, w2) \<Rightarrow> trace w2 = trace w1 @ [Delivered (oid ob) (Next (Ref (Suc (nextAddr w))))]
             \<and> fieldsOf w2 (Suc (nextAddr w)) = fieldsOf w (state st) ++ p))"
  using assms
  by (simp add: setState_open Store_subscribe_def Subject_subscribe_def Let_def fieldsOf_def)

lemmas store_eval = scenario_def scenarioStore_def nestedStore_def watchedStore_def
  leavingStore_def quiet_def leaverAt_def steady_def newStore_def
  setState_def Store_subscribe_def Store_beginTransaction_def Store_rollbackTransaction_def
  publish_def getState_def alloc_def assign_def fieldsOf_def snapshotOf_def ownProps_def
  getProp_def Subject_next_def Subject_subscribe_def newSubject_def deliver.simps invoke_def
  emit_def beginTransaction_def rollbackTransaction_def finishTransaction_def
  isTransactionActive_def setActive_def mapSet_def mapDelete_def mergeOptions_def
  DEFAULT_TRANSACTION_OPTIONS_def noOptions_def newWorld_def newManager_def Let_def









text \<open>
  C9, as the claim states it, fails: \<^verbatim>\<open>getState\<close> copies one level. In a store on
  \<^verbatim>\<open>{user: {name: "a"}}\<close> the copy's \<^verbatim>\<open>user\<close> is the store's own nested object, and
  \<^verbatim>\<open>getState().user.name = "b"\<close> is seen by the next \<^verbatim>\<open>getState\<close>.
\<close>

theorem getState_shares_nested:
  "(case nestedStore of
      (st, w) \<Rightarrow>
        (case getState st w of
           (a, w1) \<Rightarrow> getProp w1 (Ref a) ''user'' = Ref 0
             \<and> getProp w1 (getProp w1 (Ref a) ''user'') ''name'' = Str ''a''
             \<and> (case getState st (assign 0 ''name'' (Str ''b'') w1) of
                   (b, w2) \<Rightarrow> getProp w2 (getProp w2 (Ref b) ''user'') ''name'' = Str ''b'')))"
  by (simp add: store_eval)

text \<open>
  C9, amended. \<^verbatim>\<open>getState\<close> returns a new object with the fields of the state: an
  assignment to a property of the returned object changes neither the state nor what a
  later \<^verbatim>\<open>getState\<close> returns. A field of the state that refers to another object
  is copied as the reference: an assignment to a property of that object, reached
  through the returned copy, is seen through the copy a later \<^verbatim>\<open>getState\<close> returns.
\<close>

theorem getState_copy_top_level:
  assumes "state st < nextAddr w"
  shows "(case getState st w of (a, w1) \<Rightarrow>
          (case getState st (assign a k v w1) of (b, w2) \<Rightarrow>
            a \<noteq> state st \<and> fieldsOf w1 a = fieldsOf w (state st)
            \<and> fieldsOf (assign a k v w1) (state st) = fieldsOf w (state st)
            \<and> fieldsOf w2 b = fieldsOf w (state st))
          \<and> (\<forall>j n. fieldsOf w1 a j = Some (Ref n) \<and> n < nextAddr w \<and> n \<noteq> state st \<longrightarrow>
                (case getState st (assign n k v w1) of (b, w2) \<Rightarrow>
                   fieldsOf w2 b j = Some (Ref n) \<and> fieldsOf w2 n k = Some v)))"
  using assms
  by (auto simp: getState_def alloc_def assign_def fieldsOf_def)

theorem getState_copy_top_level_witness:
  "state (fst watchedStore) < nextAddr (snd watchedStore)
   \<and> (case getState (fst watchedStore) (snd watchedStore) of
        (a, w1) \<Rightarrow>
          fieldsOf (assign a ''count'' (Num 5) w1) a ''count'' = Some (Num 5)
          \<and> (case getState (fst watchedStore) (assign a ''count'' (Num 5) w1) of
                (b, w2) \<Rightarrow> fieldsOf w2 b ''count'' = Some (Num 2)))
   \<and> state (fst nestedStore) < nextAddr (snd nestedStore)
   \<and> (case getState (fst nestedStore) (snd nestedStore) of
        (a, w1) \<Rightarrow> fieldsOf w1 a ''user'' = Some (Ref 0) \<and> 0 < nextAddr (snd nestedStore)
          \<and> 0 \<noteq> state (fst nestedStore)
          \<and> fieldsOf w1 0 ''name'' = Some (Str ''a'')
          \<and> (case getState (fst nestedStore) (assign 0 ''name'' (Str ''b'') w1) of
                (b, w2) \<Rightarrow> fieldsOf w2 b ''user'' = Some (Ref 0)
                  \<and> fieldsOf w2 0 ''name'' = Some (Str ''b'')))"
  using getState_copy_top_level [where st = "fst watchedStore" and w = "snd watchedStore"
      and k = "''count''" and v = "Num 5"]
    getState_copy_top_level [where st = "fst nestedStore" and w = "snd nestedStore"
      and k = "''name''" and v = "Str ''b''"]
  by (simp add: store_eval)




end
